theory Spec2Isabelle
  imports Complex_Main
begin

section \<open>Pages, the page store and the PDF library\<close>

text \<open>
  The program is one script, \<^verbatim>\<open>src/vdppdf.py\<close>: the handler of the button
  ``Create Double-Sided PDF'' (lines 47--143). The model starts where both uploads have
  been parsed (line 55) and ends where the output writer is serialised (line 132).

  A PDF page is an object that the library mutates in place, so pages live in a store:
  a list of page values, an address being an index into it. A reader is the list of the
  addresses of its pages. A new page object is allocated at the end of the store.
  Coordinates are Python floats, idealised as reals; the running number is a Python
  integer.
\<close>

type_synonym addr = nat

datatype instr =
    SetFont string real
  | DrawString real real string
  | Cm real real
  | Other string

record rectangle =
  width :: real
  height :: real

record page =
  mediabox :: rectangle
  contents :: "instr list"

text \<open>
  PyPDF2 is not part of the repository. Its two merging methods are parameters of the
  model: each takes the value of the page it is called on, the value of the page to
  merge, and (for the translated merge) the offsets; it gives back whether it returned
  or raised, and the value the page it was called on is left with. Nothing is assumed
  about them here; what a theorem needs of them is a hypothesis of that theorem.
\<close>

datatype outcome = Returned | Raised

record pdflib =
  merge_translated_page :: "page \<Rightarrow> page \<Rightarrow> real \<Rightarrow> real \<Rightarrow> outcome \<times> page"
  merge_page :: "page \<Rightarrow> page \<Rightarrow> outcome \<times> page"

text \<open>The five number inputs of the form (lines 36, 37, 43--45).\<close>

record settings =
  front_x :: real
  front_y :: real
  start_num :: int
  x_pos :: real
  y_pos :: real

text \<open>What the loop carries: the store, the pages added to the output writer, the running number.\<close>

record state =
  heap :: "page list"
  writer :: "addr list"
  number :: int

datatype error = MasterTooShort

section \<open>The operations of the script\<close>

text \<open>Lines 81 and 82: an explicit coordinate is used when it is not negative.\<close>

definition fx :: "real \<Rightarrow> real \<Rightarrow> real \<Rightarrow> real" where
  "fx frontx mw pw = (if frontx \<ge> 0 then frontx else (mw - pw) / 2)"

definition fy :: "real \<Rightarrow> real \<Rightarrow> real \<Rightarrow> real" where
  "fy fronty mh ph = (if fronty \<ge> 0 then fronty else (mh - ph) / 2)"

text \<open>
  Lines 67--73 and 110--116: the template is added to a temporary writer, written to
  bytes and read back; the page read back is a new object with the template's value.
\<close>

definition copy_page :: "page list \<Rightarrow> addr \<Rightarrow> addr \<times> page list" where
  "copy_page h a = (length h, h @ [h ! a])"

definition new_page :: "page list \<Rightarrow> page \<Rightarrow> addr \<times> page list" where
  "new_page h v = (length h, h @ [v])"

text \<open>A method call on the object at \<open>self\<close>: the library's result is stored there.\<close>

definition call_merge_translated_page ::
  "pdflib \<Rightarrow> page list \<Rightarrow> addr \<Rightarrow> addr \<Rightarrow> real \<Rightarrow> real \<Rightarrow> outcome \<times> page list" where
  "call_merge_translated_page L h self page2 tx ty =
     (case merge_translated_page L (h ! self) (h ! page2) tx ty of
        (r, v) \<Rightarrow> (r, h[self := v]))"

definition call_merge_page ::
  "pdflib \<Rightarrow> page list \<Rightarrow> addr \<Rightarrow> addr \<Rightarrow> outcome \<times> page list" where
  "call_merge_page L h self page2 =
     (case merge_page L (h ! self) (h ! page2) of
        (r, v) \<Rightarrow> (r, h[self := v]))"

text \<open>Lines 84--90: translated merge, on an exception plain merge, on an exception nothing.\<close>

definition front_merge ::
  "pdflib \<Rightarrow> page list \<Rightarrow> addr \<Rightarrow> addr \<Rightarrow> real \<Rightarrow> real \<Rightarrow> page list" where
  "front_merge L h merged_front page x y =
     (case call_merge_translated_page L h merged_front page x y of
        (Returned, h1) \<Rightarrow> h1
      | (Raised, h1) \<Rightarrow>
          (case call_merge_page L h1 merged_front page of
             (Returned, h2) \<Rightarrow> h2
           | (Raised, h2) \<Rightarrow> h2))"

text \<open>Lines 118--124: plain merge, on an exception translated merge by (0, 0), on an exception nothing.\<close>

definition back_merge :: "pdflib \<Rightarrow> page list \<Rightarrow> addr \<Rightarrow> addr \<Rightarrow> page list" where
  "back_merge L h merged_back num_page =
     (case call_merge_page L h merged_back num_page of
        (Returned, h1) \<Rightarrow> h1
      | (Raised, h1) \<Rightarrow>
          (case call_merge_translated_page L h1 merged_back num_page 0 0 of
             (Returned, h2) \<Rightarrow> h2
           | (Raised, h2) \<Rightarrow> h2))"

text \<open>Python's \<^verbatim>\<open>str\<close> on an integer.\<close>

definition digit_char :: "nat \<Rightarrow> char" where
  "digit_char d = char_of (48 + d)"

fun digits :: "nat \<Rightarrow> string" where
  "digits n = (if n < 10 then [digit_char n] else digits (n div 10) @ [digit_char (n mod 10)])"

declare digits.simps [simp del]

definition str :: "int \<Rightarrow> string" where
  "str n = (if n < 0 then CHR ''-'' # digits (nat (- n)) else digits (nat n))"

text \<open>
  Lines 96--108: a canvas of the given page size, the font set to Helvetica 20, the
  number drawn at (x, y), the page shown and saved; the page read back from it.
\<close>

definition num_page :: "real \<Rightarrow> real \<Rightarrow> real \<Rightarrow> real \<Rightarrow> int \<Rightarrow> page" where
  "num_page w h x y n =
     \<lparr>mediabox = \<lparr>width = w, height = h\<rparr>,
      contents = [SetFont ''Helvetica'' 20, DrawString x y (str n)]\<rparr>"

text \<open>Lines 66--128: the body of the loop, for one page of the multi-page reader.\<close>

definition body :: "pdflib \<Rightarrow> settings \<Rightarrow> addr \<Rightarrow> addr \<Rightarrow> addr \<Rightarrow> state \<Rightarrow> state" where
  "body L P master_front master_back page st =
     (let (merged_front, h1) = copy_page (heap st) master_front;
          mw = width (mediabox (h1 ! master_front));
          mh = height (mediabox (h1 ! master_front));
          pw = width (mediabox (h1 ! page));
          ph = height (mediabox (h1 ! page));
          h2 = front_merge L h1 merged_front page (fx (front_x P) mw pw) (fy (front_y P) mh ph);
          wr1 = writer st @ [merged_front];
          w = width (mediabox (h2 ! master_back));
          h = height (mediabox (h2 ! master_back));
          (np, h3) = new_page h2 (num_page w h (x_pos P) (y_pos P) (number st));
          (merged_back, h4) = copy_page h3 master_back;
          h5 = back_merge L h4 merged_back np;
          wr2 = wr1 @ [merged_back]
      in \<lparr>heap = h5, writer = wr2, number = number st + 1\<rparr>)"

text \<open>Line 65: the loop over the pages of the multi-page reader, in order.\<close>

fun for_pages :: "pdflib \<Rightarrow> settings \<Rightarrow> addr \<Rightarrow> addr \<Rightarrow> addr list \<Rightarrow> state \<Rightarrow> state" where
  "for_pages L P master_front master_back [] st = st"
| "for_pages L P master_front master_back (page # pages) st =
     for_pages L P master_front master_back pages (body L P master_front master_back page st)"

text \<open>
  Lines 55--132. With fewer than two master pages the handler shows an error and does
  nothing else; otherwise it returns the pages of the output writer, with the store as
  the run leaves it.
\<close>

definition create_double_sided ::
  "pdflib \<Rightarrow> settings \<Rightarrow> page list \<Rightarrow> addr list \<Rightarrow> addr list \<Rightarrow> (error + addr list) \<times> page list" where
  "create_double_sided L P h master_reader multi_reader =
     (if length master_reader < 2 then (Inl MasterTooShort, h)
      else
        let master_front = master_reader ! 0;
            master_back = master_reader ! 1;
            st = for_pages L P master_front master_back multi_reader
                   \<lparr>heap = h, writer = [], number = start_num P\<rparr>
        in (Inr (writer st), heap st))"

text \<open>Line 132: the document written out, the value of each page of the writer in order.\<close>

definition out_bytes :: "page list \<Rightarrow> addr list \<Rightarrow> page list" where
  "out_bytes h wr = map (\<lambda>a. h ! a) wr"

section \<open>Values of the composed pages\<close>

text \<open>
  The value that lines 84--90 leave in the copy of the front template, as a function of
  the copy's value before and of the content page's value; and the same for lines
  118--124 and the copy of the back template.
\<close>

definition front_ladder :: "pdflib \<Rightarrow> page \<Rightarrow> page \<Rightarrow> real \<Rightarrow> real \<Rightarrow> page" where
  "front_ladder L b p x y =
     (case merge_translated_page L b p x y of
        (Returned, q) \<Rightarrow> q
      | (Raised, b1) \<Rightarrow> snd (merge_page L b1 p))"

definition back_ladder :: "pdflib \<Rightarrow> page \<Rightarrow> page \<Rightarrow> page" where
  "back_ladder L b s =
     (case merge_page L b s of
        (Returned, q) \<Rightarrow> q
      | (Raised, b1) \<Rightarrow> snd (merge_translated_page L b1 s 0 0))"

definition front_value :: "pdflib \<Rightarrow> settings \<Rightarrow> page \<Rightarrow> page \<Rightarrow> page" where
  "front_value L P mf p =
     front_ladder L mf p
       (fx (front_x P) (width (mediabox mf)) (width (mediabox p)))
       (fy (front_y P) (height (mediabox mf)) (height (mediabox p)))"

definition stamp_value :: "settings \<Rightarrow> page \<Rightarrow> int \<Rightarrow> page" where
  "stamp_value P mb n =
     num_page (width (mediabox mb)) (height (mediabox mb)) (x_pos P) (y_pos P) n"

definition back_value :: "pdflib \<Rightarrow> settings \<Rightarrow> page \<Rightarrow> int \<Rightarrow> page" where
  "back_value L P mb n = back_ladder L mb (stamp_value P mb n)"

text \<open>The cells one run of the loop appends to the store, and the addresses it adds to the writer.\<close>

fun cells :: "pdflib \<Rightarrow> settings \<Rightarrow> page \<Rightarrow> page \<Rightarrow> page list \<Rightarrow> int \<Rightarrow> page list" where
  "cells L P mf mb [] n = []"
| "cells L P mf mb (p # ps) n =
     front_value L P mf p # stamp_value P mb n # back_value L P mb n # cells L P mf mb ps (n + 1)"

fun slots :: "nat \<Rightarrow> nat \<Rightarrow> addr list" where
  "slots a 0 = []"
| "slots a (Suc k) = a # (a + 2) # slots (a + 3) k"

section \<open>Notions the statements use\<close>

text \<open>The number that a string of decimal digits denotes, read from the left.\<close>

definition decimal_value :: "string \<Rightarrow> nat" where
  "decimal_value s = foldl (\<lambda>a c. 10 * a + (of_char c - 48)) 0 s"

text \<open>
  Two properties a PDF library may have. A merge that raises leaves the page it was called
  on as it was (PyPDF2 assigns the merged contents and resources to the page as its
  last step). A merge never changes the media box of the page it is called on (PyPDF2
  does so only when asked to expand, which the script never does).
\<close>

definition unchanged_on_raise :: "pdflib \<Rightarrow> bool" where
  "unchanged_on_raise L \<longleftrightarrow>
     (\<forall>b p x y v. merge_translated_page L b p x y = (Raised, v) \<longrightarrow> v = b) \<and>
     (\<forall>b p v. merge_page L b p = (Raised, v) \<longrightarrow> v = b)"

definition keeps_mediabox :: "pdflib \<Rightarrow> bool" where
  "keeps_mediabox L \<longleftrightarrow>
     (\<forall>b p x y. mediabox (snd (merge_translated_page L b p x y)) = mediabox b) \<and>
     (\<forall>b p. mediabox (snd (merge_page L b p)) = mediabox b)"

text \<open>
  Inputs for the examples. A library whose translated merge raises on a negative offset
  and whose plain merge raises on a page with no contents; a 200 by 300 front and back
  template; content pages of 180 by 280 and of 220 by 320, and one of 220 by 320 with no contents; the
  form's default settings with the numbering started at 5.
\<close>

definition demo_lib :: pdflib where
  "demo_lib =
     \<lparr>merge_translated_page = (\<lambda>b p x y.
        if x < 0 \<or> y < 0 then (Raised, b)
        else (Returned, b\<lparr>contents := contents b @ Cm x y # contents p\<rparr>)),
      merge_page = (\<lambda>b p.
        if contents p = [] then (Raised, b)
        else (Returned, b\<lparr>contents := contents b @ contents p\<rparr>))\<rparr>"

definition demo_settings :: settings where
  "demo_settings = \<lparr>front_x = - 1, front_y = - 1, start_num = 5, x_pos = 50, y_pos = 50\<rparr>"

definition demo_heap :: "page list" where
  "demo_heap =
     [\<lparr>mediabox = \<lparr>width = 200, height = 300\<rparr>, contents = [Other ''front'']\<rparr>,
      \<lparr>mediabox = \<lparr>width = 200, height = 300\<rparr>, contents = [Other ''back'']\<rparr>,
      \<lparr>mediabox = \<lparr>width = 180, height = 280\<rparr>, contents = [Other ''a'']\<rparr>,
      \<lparr>mediabox = \<lparr>width = 220, height = 320\<rparr>, contents = [Other ''b'']\<rparr>,
      \<lparr>mediabox = \<lparr>width = 220, height = 320\<rparr>, contents = []\<rparr>]"

section \<open>The loop body in closed form\<close>

lemma front_merge_value:
  assumes "mfc < length h" "pg < length h" "pg \<noteq> mfc"
  shows "front_merge L h mfc pg x y = h[mfc := front_ladder L (h ! mfc) (h ! pg) x y]"
  using assms
  by (simp add: front_merge_def front_ladder_def call_merge_translated_page_def
      call_merge_page_def split: prod.splits outcome.splits)

lemma back_merge_value:
  assumes "mbc < length h" "np < length h" "np \<noteq> mbc"
  shows "back_merge L h mbc np = h[mbc := back_ladder L (h ! mbc) (h ! np)]"
  using assms
  by (simp add: back_merge_def back_ladder_def call_merge_translated_page_def
      call_merge_page_def split: prod.splits outcome.splits)

lemma body_closed:
  assumes "mf < length (heap st)" "mb < length (heap st)" "pg < length (heap st)"
  shows "body L P mf mb pg st =
    \<lparr>heap = heap st @ [front_value L P (heap st ! mf) (heap st ! pg),
                       stamp_value P (heap st ! mb) (number st),
                       back_value L P (heap st ! mb) (number st)],
     writer = writer st @ [length (heap st), length (heap st) + 2],
     number = number st + 1\<rparr>"
  using assms
  by (simp add: body_def copy_page_def new_page_def Let_def front_merge_value
      back_merge_value nth_append front_value_def stamp_value_def back_value_def
      list_update_append)

lemma for_pages_closed:
  assumes "mf < length (heap st)" "mb < length (heap st)" "\<forall>a \<in> set pages. a < length (heap st)"
  shows "for_pages L P mf mb pages st =
    \<lparr>heap = heap st @ cells L P (heap st ! mf) (heap st ! mb) (map (\<lambda>a. heap st ! a) pages) (number st),
     writer = writer st @ slots (length (heap st)) (length pages),
     number = number st + int (length pages)\<rparr>"
  using assms
proof (induction pages arbitrary: st)
  case Nil
  then show ?case by simp
next
  case (Cons pg pages)
  let ?st = "body L P mf mb pg st"
  have b: "?st = \<lparr>heap = heap st @ [front_value L P (heap st ! mf) (heap st ! pg),
                       stamp_value P (heap st ! mb) (number st),
                       back_value L P (heap st ! mb) (number st)],
     writer = writer st @ [length (heap st), length (heap st) + 2],
     number = number st + 1\<rparr>"
    using Cons.prems by (simp add: body_closed)
  have hp: "heap ?st = heap st @ [front_value L P (heap st ! mf) (heap st ! pg),
                       stamp_value P (heap st ! mb) (number st),
                       back_value L P (heap st ! mb) (number st)]"
    and wr: "writer ?st = writer st @ [length (heap st), length (heap st) + 2]"
    and nu: "number ?st = number st + 1"
    by (simp_all add: b)
  have len: "length (heap ?st) = length (heap st) + 3"
    by (simp add: hp)
  have mfv: "heap ?st ! mf = heap st ! mf" and mbv: "heap ?st ! mb = heap st ! mb"
    using Cons.prems by (simp_all add: hp nth_append)
  have pgs: "map (\<lambda>a. heap ?st ! a) pages = map (\<lambda>a. heap st ! a) pages"
    using Cons.prems by (intro map_cong) (simp_all add: hp nth_append)
  have valid: "mf < length (heap ?st)" "mb < length (heap ?st)"
    "\<forall>a \<in> set pages. a < length (heap ?st)"
    using Cons.prems by (auto simp add: len)
  have "for_pages L P mf mb (pg # pages) st = for_pages L P mf mb pages ?st"
    by simp
  also have "\<dots> =
    \<lparr>heap = heap ?st @ cells L P (heap ?st ! mf) (heap ?st ! mb) (map (\<lambda>a. heap ?st ! a) pages) (number ?st),
     writer = writer ?st @ slots (length (heap ?st)) (length pages),
     number = number ?st + int (length pages)\<rparr>"
    using valid by (rule Cons.IH)
  also have "\<dots> =
    \<lparr>heap = heap st @ cells L P (heap st ! mf) (heap st ! mb) (map (\<lambda>a. heap st ! a) (pg # pages)) (number st),
     writer = writer st @ slots (length (heap st)) (length (pg # pages)),
     number = number st + int (length (pg # pages))\<rparr>"
    unfolding pgs mfv mbv len nu by (simp add: hp wr)
  finally show ?case .
qed

section \<open>Indexing the appended cells\<close>

lemma length_cells: "length (cells L P mf mb ps n) = 3 * length ps"
  by (induction ps arbitrary: n) simp_all

lemma cells_nth:
  assumes "i < length ps"
  shows "cells L P mf mb ps n ! (3 * i) = front_value L P mf (ps ! i)"
    and "cells L P mf mb ps n ! (3 * i + 1) = stamp_value P mb (n + int i)"
    and "cells L P mf mb ps n ! (3 * i + 2) = back_value L P mb (n + int i)"
  using assms
proof (induction ps arbitrary: n i)
  case Nil
  {
    case 1 then show ?case by simp
  next
    case 2 then show ?case by simp
  next
    case 3 then show ?case by simp
  }
next
  case (Cons p ps)
  {
    case 1
    show ?case
    proof (cases i)
      case 0 then show ?thesis by simp
    next
      case (Suc j)
      with 1 have "j < length ps" by simp
      from Cons.IH(1)[OF this, of "n + 1"] show ?thesis
        by (simp add: Suc)
    qed
  next
    case 2
    show ?case
    proof (cases i)
      case 0 then show ?thesis by simp
    next
      case (Suc j)
      with 2 have "j < length ps" by simp
      from Cons.IH(2)[OF this, of "n + 1"] show ?thesis
        by (simp add: Suc add.assoc)
    qed
  next
    case 3
    show ?case
    proof (cases i)
      case 0 then show ?thesis by simp
    next
      case (Suc j)
      with 3 have "j < length ps" by simp
      from Cons.IH(3)[OF this, of "n + 1"] show ?thesis
        by (simp add: Suc add.assoc)
    qed
  }
qed

lemma length_slots: "length (slots a k) = 2 * k"
  by (induction k arbitrary: a) simp_all

lemma slots_nth:
  assumes "i < k"
  shows "slots a k ! (2 * i) = a + 3 * i"
    and "slots a k ! (2 * i + 1) = a + 3 * i + 2"
  using assms
proof (induction k arbitrary: a i)
  case 0
  {
    case 1 then show ?case by simp
  next
    case 2 then show ?case by simp
  }
next
  case (Suc k)
  {
    case 1
    show ?case
    proof (cases i)
      case 0 then show ?thesis by simp
    next
      case (Suc j)
      with 1 have "j < k" by simp
      from Suc.IH(1)[OF this, of "a + 3"] show ?thesis
        by (simp add: \<open>i = Suc j\<close>)
    qed
  next
    case 2
    show ?case
    proof (cases i)
      case 0 then show ?thesis by simp
    next
      case (Suc j)
      with 2 have "j < k" by simp
      from Suc.IH(2)[OF this, of "a + 3"] show ?thesis
        by (simp add: \<open>i = Suc j\<close>)
    qed
  }
qed

lemma slots_bounds: "x \<in> set (slots a k) \<Longrightarrow> a \<le> x \<and> x < a + 3 * k"
  by (induction k arbitrary: a) fastforce+

lemma distinct_slots: "distinct (slots a k)"
proof (induction k arbitrary: a)
  case 0 show ?case by simp
next
  case (Suc k)
  have "\<And>x. x \<in> set (slots (a + 3) k) \<Longrightarrow> a + 3 \<le> x"
    using slots_bounds by blast
  then have "a \<notin> set (slots (a + 3) k)" "a + 2 \<notin> set (slots (a + 3) k)"
    by fastforce+
  then show ?case using Suc.IH[of "a + 3"] by simp
qed

lemma create_closed:
  assumes "2 \<le> length master" "\<forall>a \<in> set master. a < length h" "\<forall>a \<in> set multi. a < length h"
  shows "create_double_sided L P h master multi =
    (Inr (slots (length h) (length multi)),
     h @ cells L P (h ! (master ! 0)) (h ! (master ! 1)) (map (\<lambda>a. h ! a) multi) (start_num P))"
proof -
  have "master ! 0 \<in> set master" "master ! 1 \<in> set master"
    using assms(1) by (auto intro!: nth_mem)
  then have "master ! 0 < length h" "master ! 1 < length h"
    using assms(2) by blast+
  then show ?thesis
    using assms by (simp add: create_double_sided_def Let_def for_pages_closed)
qed

section \<open>Decimal rendering\<close>

lemma digit_char_table: "map digit_char [0..<10] = ''0123456789''"
  by code_simp

lemma digit_char_cases:
  assumes "d < 10"
  shows "digit_char d \<in> set ''0123456789''"
proof -
  have "digit_char d = map digit_char [0..<10] ! d"
    using assms by simp
  also have "\<dots> \<in> set (map digit_char [0..<10])"
    using assms by (intro nth_mem) simp
  finally show ?thesis
    by (simp only: digit_char_table)
qed

lemma of_char_digit_char: "d < 10 \<Longrightarrow> of_char (digit_char d) = 48 + d"
  by (simp add: digit_char_def)

lemma digit_char_zero: "d < 10 \<Longrightarrow> digit_char d = CHR ''0'' \<longleftrightarrow> d = 0"
proof -
  assume d: "d < 10"
  have "digit_char d = CHR ''0'' \<longleftrightarrow> (of_char (digit_char d) :: nat) = of_char (CHR ''0'')"
    by (simp only: of_char_eq_iff)
  also have "\<dots> \<longleftrightarrow> d = 0"
    using d by (simp add: of_char_digit_char)
  finally show ?thesis .
qed

lemma digits_not_Nil: "digits n \<noteq> []"
  by (subst digits.simps) simp

lemma set_digits: "set (digits n) \<subseteq> set ''0123456789''"
proof (induction n rule: digits.induct)
  case (1 n)
  show ?case
  proof (cases "n < 10")
    case True
    then show ?thesis
      using digit_char_cases[of n] by (subst digits.simps) simp
  next
    case False
    have "n mod 10 < 10" by simp
    then have "digit_char (n mod 10) \<in> set ''0123456789''"
      by (rule digit_char_cases)
    with False 1 show ?thesis
      by (subst digits.simps) simp
  qed
qed

lemma decimal_value_digits: "decimal_value (digits n) = n"
proof (induction n rule: digits.induct)
  case (1 n)
  show ?case
  proof (cases "n < 10")
    case True
    then show ?thesis
      by (subst digits.simps) (simp add: decimal_value_def of_char_digit_char)
  next
    case False
    then have "decimal_value (digits (n div 10)) = n div 10"
      using 1 by simp
    moreover have "(of_char (digit_char (n mod 10)) :: nat) = 48 + n mod 10"
      by (simp add: of_char_digit_char)
    ultimately show ?thesis
      using False by (subst digits.simps) (simp add: decimal_value_def)
  qed
qed

lemma hd_digits: "0 < n \<Longrightarrow> hd (digits n) \<noteq> CHR ''0''"
proof (induction n rule: digits.induct)
  case (1 n)
  show ?case
  proof (cases "n < 10")
    case True
    with 1(2) show ?thesis
      by (subst digits.simps) (simp add: digit_char_zero)
  next
    case False
    then have "0 < n div 10" by simp
    with False 1 have "hd (digits (n div 10)) \<noteq> CHR ''0''" by simp
    with False show ?thesis
      by (subst digits.simps) (simp add: digits_not_Nil)
  qed
qed

lemma str_decimal:
  assumes "1 \<le> n"
  shows "set (str n) \<subseteq> set ''0123456789''"
    and "hd (str n) \<noteq> CHR ''0''"
    and "int (decimal_value (str n)) = n"
  using assms set_digits[of "nat n"] hd_digits[of "nat n"]
  by (simp_all add: str_def decimal_value_digits)

section \<open>The output of a run\<close>

lemma length_out_bytes: "length (out_bytes h wr) = length wr"
  by (simp add: out_bytes_def)

lemma out_bytes_nth: "k < length wr \<Longrightarrow> out_bytes h wr ! k = h ! (wr ! k)"
  by (simp add: out_bytes_def)

lemma output_nth:
  assumes "\<forall>a \<in> set multi. a < length h" "i < length multi"
  shows "out_bytes (h @ cells L P mf mb (map (\<lambda>a. h ! a) multi) n)
           (slots (length h) (length multi)) ! (2 * i) = front_value L P mf (h ! (multi ! i))"
    and "out_bytes (h @ cells L P mf mb (map (\<lambda>a. h ! a) multi) n)
           (slots (length h) (length multi)) ! (2 * i + 1) = back_value L P mb (n + int i)"
proof -
  let ?c = "cells L P mf mb (map (\<lambda>a. h ! a) multi) n"
  let ?wr = "slots (length h) (length multi)"
  have i': "i < length (map (\<lambda>a. h ! a) multi)"
    using assms(2) by simp
  have s0: "?wr ! (2 * i) = length h + 3 * i"
    and s1: "?wr ! (2 * i + 1) = length h + 3 * i + 2"
    using assms(2) by (rule slots_nth)+
  have a0: "(h @ ?c) ! (length h + 3 * i) = ?c ! (3 * i)"
    and a1: "(h @ ?c) ! (length h + 3 * i + 2) = ?c ! (3 * i + 2)"
    by (simp_all add: nth_append)
  have k0: "2 * i < length ?wr" and k1: "2 * i + 1 < length ?wr"
    using assms(2) by (simp_all add: length_slots)
  have o0: "out_bytes (h @ ?c) ?wr ! (2 * i) = (h @ ?c) ! (?wr ! (2 * i))"
    using k0 by (rule out_bytes_nth)
  have o1: "out_bytes (h @ ?c) ?wr ! (2 * i + 1) = (h @ ?c) ! (?wr ! (2 * i + 1))"
    using k1 by (rule out_bytes_nth)
  have "?c ! (3 * i) = front_value L P mf (map (\<lambda>a. h ! a) multi ! i)"
    using i' by (rule cells_nth(1))
  then show "out_bytes (h @ ?c) ?wr ! (2 * i) = front_value L P mf (h ! (multi ! i))"
    using assms(2) by (simp only: o0 s0 a0 nth_map)
  have "?c ! (3 * i + 2) = back_value L P mb (n + int i)"
    using i' by (rule cells_nth(3))
  then show "out_bytes (h @ ?c) ?wr ! (2 * i + 1) = back_value L P mb (n + int i)"
    by (simp only: o1 s1 a1)
qed

lemma run_output:
  assumes "2 \<le> length master" "\<forall>a \<in> set master. a < length h" "\<forall>a \<in> set multi. a < length h"
  shows "\<exists>wr h'. create_double_sided L P h master multi = (Inr wr, h') \<and>
     length (out_bytes h' wr) = 2 * length multi \<and>
     (\<forall>i < length multi.
        out_bytes h' wr ! (2 * i) = front_value L P (h ! (master ! 0)) (h ! (multi ! i)) \<and>
        out_bytes h' wr ! (2 * i + 1) = back_value L P (h ! (master ! 1)) (start_num P + int i))"
proof -
  let ?wr = "slots (length h) (length multi)"
  let ?h' = "h @ cells L P (h ! (master ! 0)) (h ! (master ! 1)) (map (\<lambda>a. h ! a) multi) (start_num P)"
  have c: "create_double_sided L P h master multi = (Inr ?wr, ?h')"
    using assms by (rule create_closed)
  have l: "length (out_bytes ?h' ?wr) = 2 * length multi"
    by (simp add: length_out_bytes length_slots)
  have v: "\<forall>i < length multi.
        out_bytes ?h' ?wr ! (2 * i) = front_value L P (h ! (master ! 0)) (h ! (multi ! i)) \<and>
        out_bytes ?h' ?wr ! (2 * i + 1) = back_value L P (h ! (master ! 1)) (start_num P + int i)"
    using output_nth[OF assms(3)] by blast
  from c l v show ?thesis by blast
qed

section \<open>The two fallback ladders and the example library\<close>

lemma mediabox_front_ladder:
  "keeps_mediabox L \<Longrightarrow> mediabox (front_ladder L b p x y) = mediabox b"
proof -
  assume k: "keeps_mediabox L"
  obtain r v where m: "merge_translated_page L b p x y = (r, v)"
    by (cases "merge_translated_page L b p x y")
  from k have "mediabox (snd (merge_translated_page L b p x y)) = mediabox b"
    by (simp add: keeps_mediabox_def)
  with m have v: "mediabox v = mediabox b" by simp
  from k have "mediabox (snd (merge_page L v p)) = mediabox v"
    by (simp add: keeps_mediabox_def)
  with v m show ?thesis
    by (cases r) (simp_all add: front_ladder_def)
qed

lemma mediabox_back_ladder:
  "keeps_mediabox L \<Longrightarrow> mediabox (back_ladder L b s) = mediabox b"
proof -
  assume k: "keeps_mediabox L"
  obtain r v where m: "merge_page L b s = (r, v)"
    by (cases "merge_page L b s")
  from k have "mediabox (snd (merge_page L b s)) = mediabox b"
    by (simp add: keeps_mediabox_def)
  with m have v: "mediabox v = mediabox b" by simp
  from k have "mediabox (snd (merge_translated_page L v s 0 0)) = mediabox v"
    by (simp add: keeps_mediabox_def)
  with v m show ?thesis
    by (cases r) (simp_all add: back_ladder_def)
qed

lemma front_ladder_fallback:
  assumes "unchanged_on_raise L" "fst (merge_translated_page L b p x y) = Raised"
  shows "front_ladder L b p x y =
    (case merge_page L b p of (Returned, q) \<Rightarrow> q | (Raised, v) \<Rightarrow> b)"
proof -
  obtain v where m: "merge_translated_page L b p x y = (Raised, v)"
    using assms(2) by (cases "merge_translated_page L b p x y") simp
  with assms(1) have v: "v = b"
    unfolding unchanged_on_raise_def by blast
  obtain r q where n: "merge_page L b p = (r, q)"
    by (cases "merge_page L b p")
  show ?thesis
  proof (cases r)
    case Returned
    with m v n show ?thesis by (simp add: front_ladder_def)
  next
    case Raised
    with n assms(1) have "q = b"
      unfolding unchanged_on_raise_def by blast
    with Raised m v n show ?thesis by (simp add: front_ladder_def)
  qed
qed

lemma back_ladder_fallback:
  assumes "unchanged_on_raise L" "fst (merge_translated_page L b s 0 0) = Raised"
  shows "back_ladder L b s =
    (case merge_page L b s of (Returned, q) \<Rightarrow> q | (Raised, v) \<Rightarrow> b)"
proof -
  obtain v where m: "merge_translated_page L b s 0 0 = (Raised, v)"
    using assms(2) by (cases "merge_translated_page L b s 0 0") simp
  with assms(1) have v: "v = b"
    unfolding unchanged_on_raise_def by blast
  obtain r q where n: "merge_page L b s = (r, q)"
    by (cases "merge_page L b s")
  show ?thesis
  proof (cases r)
    case Returned
    with n show ?thesis by (simp add: back_ladder_def)
  next
    case Raised
    with n assms(1) have "q = b"
      unfolding unchanged_on_raise_def by blast
    with Raised m v n show ?thesis by (simp add: back_ladder_def)
  qed
qed

lemma unchanged_on_raise_demo: "unchanged_on_raise demo_lib"
  by (simp add: unchanged_on_raise_def demo_lib_def)

lemma keeps_mediabox_demo: "keeps_mediabox demo_lib"
  by (simp add: keeps_mediabox_def demo_lib_def)

lemma demo_valid:
  "2 \<le> length [0, 1 :: nat]"
  "\<forall>a \<in> set [0, 1 :: nat]. a < length demo_heap"
  "\<forall>a \<in> set [2, 3, 4 :: nat]. a < length demo_heap"
  by (simp_all add: demo_heap_def)

lemma stamp_value_eq:
  "stamp_value P mb n =
     \<lparr>mediabox = mediabox mb,
      contents = [SetFont ''Helvetica'' 20, DrawString (x_pos P) (y_pos P) (str n)]\<rparr>"
  by (simp add: stamp_value_def num_page_def)

section \<open>The claims\<close>

text \<open>
  In the theorems below a run starts from a store \<open>h\<close> that holds every page of the
  two readers: each address of a reader is below \<open>length h\<close>. The pages of the output
  document are read off the final store with \<open>out_bytes\<close>.
\<close>

text \<open>
  C1. For a master reader of at least two pages and a multi-page reader of N pages
  (N = 0 included) the run returns an output document, never the error; the document has
  exactly 2 N pages; page 2 i is the front composed from content page i on the front
  template, and page 2 i + 1 is the back composed from the back template and the stamp
  numbered \<open>start_num + i\<close>. With no content page the document is empty.
\<close>

theorem output_is_front_back_pairs:
  assumes "2 \<le> length master_reader"
    and "\<forall>a \<in> set master_reader. a < length h"
    and "\<forall>a \<in> set multi_reader. a < length h"
  shows "\<exists>wr h'. create_double_sided L P h master_reader multi_reader = (Inr wr, h') \<and>
     length (out_bytes h' wr) = 2 * length multi_reader \<and>
     (\<forall>i < length multi_reader.
        out_bytes h' wr ! (2 * i) =
          front_value L P (h ! (master_reader ! 0)) (h ! (multi_reader ! i)) \<and>
        out_bytes h' wr ! (2 * i + 1) =
          back_value L P (h ! (master_reader ! 1)) (start_num P + int i)) \<and>
     (multi_reader = [] \<longrightarrow> out_bytes h' wr = [])"
proof -
  from run_output[OF assms, of L P] obtain wr h' where
    r: "create_double_sided L P h master_reader multi_reader = (Inr wr, h')"
    and l: "length (out_bytes h' wr) = 2 * length multi_reader"
    and v: "\<forall>i < length multi_reader.
        out_bytes h' wr ! (2 * i) =
          front_value L P (h ! (master_reader ! 0)) (h ! (multi_reader ! i)) \<and>
        out_bytes h' wr ! (2 * i + 1) =
          back_value L P (h ! (master_reader ! 1)) (start_num P + int i)"
    by blast
  from l have "multi_reader = [] \<longrightarrow> out_bytes h' wr = []"
    by auto
  with r l v show ?thesis by blast
qed

theorem output_is_front_back_pairs_witness:
  "\<exists>wr h'. create_double_sided demo_lib demo_settings demo_heap [0, 1] [2, 3, 4] = (Inr wr, h') \<and>
     length (out_bytes h' wr) = 6 \<and>
     out_bytes h' wr ! 2 = front_value demo_lib demo_settings (demo_heap ! 0) (demo_heap ! 3) \<and>
     out_bytes h' wr ! 3 = back_value demo_lib demo_settings (demo_heap ! 1) 6"
proof -
  have a: "2 \<le> length [0, 1 :: nat]"
    and b: "\<forall>a \<in> set [0, 1 :: nat]. a < length demo_heap"
    and c: "\<forall>a \<in> set [2, 3, 4 :: nat]. a < length demo_heap"
    by (simp_all add: demo_heap_def)
  from output_is_front_back_pairs[OF a b c, of demo_lib demo_settings]
  obtain wr h' where
    r: "create_double_sided demo_lib demo_settings demo_heap [0, 1] [2, 3, 4] = (Inr wr, h')"
    and l: "length (out_bytes h' wr) = 2 * length [2, 3, 4 :: nat]"
    and v: "\<forall>i < length [2, 3, 4 :: nat].
        out_bytes h' wr ! (2 * i) =
          front_value demo_lib demo_settings (demo_heap ! ([0, 1] ! 0)) (demo_heap ! ([2, 3, 4] ! i)) \<and>
        out_bytes h' wr ! (2 * i + 1) =
          back_value demo_lib demo_settings (demo_heap ! ([0, 1] ! 1)) (start_num demo_settings + int i)"
    by blast
  from v[rule_format, of 1] have "out_bytes h' wr ! (2 * 1) =
          front_value demo_lib demo_settings (demo_heap ! ([0, 1] ! 0)) (demo_heap ! ([2, 3, 4] ! 1)) \<and>
        out_bytes h' wr ! (2 * 1 + 1) =
          back_value demo_lib demo_settings (demo_heap ! ([0, 1] ! 1)) (start_num demo_settings + int 1)"
    by simp
  then have "out_bytes h' wr ! 2 = front_value demo_lib demo_settings (demo_heap ! 0) (demo_heap ! 3)"
    and "out_bytes h' wr ! 3 = back_value demo_lib demo_settings (demo_heap ! 1) 6"
    by (simp_all add: demo_settings_def)
  with r l show ?thesis by auto
qed

text \<open>
  C2. With the numbering started at 1 or more, back page i is the back template merged
  with the stamp whose text is \<open>str (start_num + i)\<close>, for every i below N: the
  numbers go up by one from \<open>start_num\<close>, none left out and none used twice. That
  text is the plain decimal numeral: only the digits 0 to 9, the first of them not 0,
  and read as a decimal number it is \<open>start_num + i\<close>.
\<close>

theorem back_numbers_count_up:
  assumes "2 \<le> length master_reader"
    and "\<forall>a \<in> set master_reader. a < length h"
    and "\<forall>a \<in> set multi_reader. a < length h"
    and "1 \<le> start_num P"
  shows "\<exists>wr h'. create_double_sided L P h master_reader multi_reader = (Inr wr, h') \<and>
     (\<forall>i < length multi_reader.
        out_bytes h' wr ! (2 * i + 1) =
          back_ladder L (h ! (master_reader ! 1))
            \<lparr>mediabox = \<lparr>width = width (mediabox (h ! (master_reader ! 1))),
                          height = height (mediabox (h ! (master_reader ! 1)))\<rparr>,
             contents = [SetFont ''Helvetica'' 20,
                         DrawString (x_pos P) (y_pos P) (str (start_num P + int i))]\<rparr> \<and>
        set (str (start_num P + int i)) \<subseteq> set ''0123456789'' \<and>
        hd (str (start_num P + int i)) \<noteq> CHR ''0'' \<and>
        int (decimal_value (str (start_num P + int i))) = start_num P + int i)"
proof -
  from run_output[OF assms(1-3), of L P] obtain wr h' where
    r: "create_double_sided L P h master_reader multi_reader = (Inr wr, h')"
    and v: "\<forall>i < length multi_reader.
        out_bytes h' wr ! (2 * i) =
          front_value L P (h ! (master_reader ! 0)) (h ! (multi_reader ! i)) \<and>
        out_bytes h' wr ! (2 * i + 1) =
          back_value L P (h ! (master_reader ! 1)) (start_num P + int i)"
    by blast
  have "out_bytes h' wr ! (2 * i + 1) =
          back_ladder L (h ! (master_reader ! 1))
            \<lparr>mediabox = \<lparr>width = width (mediabox (h ! (master_reader ! 1))),
                          height = height (mediabox (h ! (master_reader ! 1)))\<rparr>,
             contents = [SetFont ''Helvetica'' 20,
                         DrawString (x_pos P) (y_pos P) (str (start_num P + int i))]\<rparr> \<and>
        set (str (start_num P + int i)) \<subseteq> set ''0123456789'' \<and>
        hd (str (start_num P + int i)) \<noteq> CHR ''0'' \<and>
        int (decimal_value (str (start_num P + int i))) = start_num P + int i"
    if i: "i < length multi_reader" for i
  proof -
    have n: "1 \<le> start_num P + int i"
      using assms(4) by simp
    from v i have "out_bytes h' wr ! (2 * i + 1) =
          back_value L P (h ! (master_reader ! 1)) (start_num P + int i)"
      by blast
    then have "out_bytes h' wr ! (2 * i + 1) =
          back_ladder L (h ! (master_reader ! 1))
            \<lparr>mediabox = \<lparr>width = width (mediabox (h ! (master_reader ! 1))),
                          height = height (mediabox (h ! (master_reader ! 1)))\<rparr>,
             contents = [SetFont ''Helvetica'' 20,
                         DrawString (x_pos P) (y_pos P) (str (start_num P + int i))]\<rparr>"
      by (simp only: back_value_def stamp_value_def num_page_def)
    with str_decimal[OF n] show ?thesis by blast
  qed
  with r show ?thesis by blast
qed

theorem back_numbers_count_up_witness:
  "\<exists>wr h'. create_double_sided demo_lib demo_settings demo_heap [0, 1] [2, 3, 4] = (Inr wr, h') \<and>
     out_bytes h' wr ! 5 =
       \<lparr>mediabox = \<lparr>width = 200, height = 300\<rparr>,
        contents = [Other ''back'', SetFont ''Helvetica'' 20, DrawString 50 50 ''7'']\<rparr>"
proof -
  have s: "1 \<le> start_num demo_settings"
    by (simp add: demo_settings_def)
  have t: "str 7 = ''7''"
    by code_simp
  from back_numbers_count_up[OF demo_valid s, of demo_lib]
  obtain wr h' where
    r: "create_double_sided demo_lib demo_settings demo_heap [0, 1] [2, 3, 4] = (Inr wr, h')"
    and v: "\<forall>i < length [2, 3, 4 :: nat].
        out_bytes h' wr ! (2 * i + 1) =
          back_ladder demo_lib (demo_heap ! ([0, 1] ! 1))
            \<lparr>mediabox = \<lparr>width = width (mediabox (demo_heap ! ([0, 1] ! 1))),
                          height = height (mediabox (demo_heap ! ([0, 1] ! 1)))\<rparr>,
             contents = [SetFont ''Helvetica'' 20,
                         DrawString (x_pos demo_settings) (y_pos demo_settings)
                           (str (start_num demo_settings + int i))]\<rparr> \<and>
        set (str (start_num demo_settings + int i)) \<subseteq> set ''0123456789'' \<and>
        hd (str (start_num demo_settings + int i)) \<noteq> CHR ''0'' \<and>
        int (decimal_value (str (start_num demo_settings + int i))) = start_num demo_settings + int i"
    by blast
  from v[rule_format, of 2] have "out_bytes h' wr ! 5 =
       \<lparr>mediabox = \<lparr>width = 200, height = 300\<rparr>,
        contents = [Other ''back'', SetFont ''Helvetica'' 20, DrawString 50 50 ''7'']\<rparr>"
    by (simp add: demo_settings_def demo_heap_def demo_lib_def back_ladder_def t)
  with r show ?thesis by blast
qed

text \<open>
  C3. With both front coordinates at the auto value \<open>- 1\<close>, the offset resolved for a
  content page of size (pw, ph) on a front template of size (mw, mh) is
  ((mw - pw) / 2, (mh - ph) / 2); in a run, front page i is merged at the offset computed
  from the size of content page i itself.
\<close>

theorem auto_centre_placement:
  assumes "2 \<le> length master_reader"
    and "\<forall>a \<in> set master_reader. a < length h"
    and "\<forall>a \<in> set multi_reader. a < length h"
    and "front_x P = - 1" and "front_y P = - 1"
  shows "fx (front_x P) mw pw = (mw - pw) / 2 \<and> fy (front_y P) mh ph = (mh - ph) / 2 \<and>
    (\<exists>wr h'. create_double_sided L P h master_reader multi_reader = (Inr wr, h') \<and>
     (\<forall>i < length multi_reader.
        out_bytes h' wr ! (2 * i) =
          front_ladder L (h ! (master_reader ! 0)) (h ! (multi_reader ! i))
            ((width (mediabox (h ! (master_reader ! 0))) - width (mediabox (h ! (multi_reader ! i)))) / 2)
            ((height (mediabox (h ! (master_reader ! 0))) - height (mediabox (h ! (multi_reader ! i)))) / 2)))"
proof -
  have x: "fx (front_x P) a b = (a - b) / 2" and y: "fy (front_y P) a b = (a - b) / 2" for a b
    using assms(4,5) by (simp_all add: fx_def fy_def)
  from run_output[OF assms(1-3), of L P] obtain wr h' where
    r: "create_double_sided L P h master_reader multi_reader = (Inr wr, h')"
    and v: "\<forall>i < length multi_reader.
        out_bytes h' wr ! (2 * i) =
          front_value L P (h ! (master_reader ! 0)) (h ! (multi_reader ! i)) \<and>
        out_bytes h' wr ! (2 * i + 1) =
          back_value L P (h ! (master_reader ! 1)) (start_num P + int i)"
    by blast
  from v have "\<forall>i < length multi_reader.
        out_bytes h' wr ! (2 * i) =
          front_ladder L (h ! (master_reader ! 0)) (h ! (multi_reader ! i))
            ((width (mediabox (h ! (master_reader ! 0))) - width (mediabox (h ! (multi_reader ! i)))) / 2)
            ((height (mediabox (h ! (master_reader ! 0))) - height (mediabox (h ! (multi_reader ! i)))) / 2)"
    by (simp only: front_value_def x y) blast
  with r x y show ?thesis by blast
qed

theorem auto_centre_placement_witness:
  "fx (front_x demo_settings) 200 180 = 10 \<and> fy (front_y demo_settings) 300 280 = 10 \<and>
   (\<exists>wr h'. create_double_sided demo_lib demo_settings demo_heap [0, 1] [2, 3, 4] = (Inr wr, h') \<and>
     out_bytes h' wr ! 0 =
       \<lparr>mediabox = \<lparr>width = 200, height = 300\<rparr>,
        contents = [Other ''front'', Cm 10 10, Other ''a'']\<rparr>)"
proof -
  have s: "front_x demo_settings = - 1" "front_y demo_settings = - 1"
    by (simp_all add: demo_settings_def)
  from auto_centre_placement[OF demo_valid s, of 200 180 300 280 demo_lib]
  obtain wr h' where
    xy: "fx (front_x demo_settings) 200 180 = (200 - 180) / 2"
      "fy (front_y demo_settings) 300 280 = (300 - 280) / 2"
    and r: "create_double_sided demo_lib demo_settings demo_heap [0, 1] [2, 3, 4] = (Inr wr, h')"
    and v: "\<forall>i < length [2, 3, 4 :: nat].
        out_bytes h' wr ! (2 * i) =
          front_ladder demo_lib (demo_heap ! ([0, 1] ! 0)) (demo_heap ! ([2, 3, 4] ! i))
            ((width (mediabox (demo_heap ! ([0, 1] ! 0))) - width (mediabox (demo_heap ! ([2, 3, 4] ! i)))) / 2)
            ((height (mediabox (demo_heap ! ([0, 1] ! 0))) - height (mediabox (demo_heap ! ([2, 3, 4] ! i)))) / 2)"
    by blast
  from v[rule_format, of 0] have "out_bytes h' wr ! 0 =
       \<lparr>mediabox = \<lparr>width = 200, height = 300\<rparr>,
        contents = [Other ''front'', Cm 10 10, Other ''a'']\<rparr>"
    by (simp add: demo_heap_def demo_lib_def front_ladder_def)
  with r xy show ?thesis by auto
qed

text \<open>
  C4 as stated fails: the coordinate \<open>- 2\<close> is not the auto value \<open>- 1\<close>, yet
  lines 81 and 82 test \<open>front_x >= 0\<close> and centre the content, here at (10, 10).
\<close>

theorem explicit_placement_counterexample:
  "(- 2 :: real) \<noteq> - 1 \<and> (fx (- 2) 200 180, fy (- 2) 300 280) = (10, 10) \<and>
   (fx (- 2) 200 180, fy (- 2) 300 280) \<noteq> (- 2, - 2)"
  by (simp add: fx_def fy_def)

text \<open>
  C4, amended. For every front coordinate pair that is not negative, the resolved
  placement is exactly \<open>(front_x, front_y)\<close>, whatever the sizes of the content page
  and of the template; in a run, every front page is merged at that offset.
\<close>

theorem explicit_placement:
  assumes "2 \<le> length master_reader"
    and "\<forall>a \<in> set master_reader. a < length h"
    and "\<forall>a \<in> set multi_reader. a < length h"
    and "0 \<le> front_x P" and "0 \<le> front_y P"
  shows "(fx (front_x P) mw pw, fy (front_y P) mh ph) = (front_x P, front_y P) \<and>
    (\<exists>wr h'. create_double_sided L P h master_reader multi_reader = (Inr wr, h') \<and>
     (\<forall>i < length multi_reader.
        out_bytes h' wr ! (2 * i) =
          front_ladder L (h ! (master_reader ! 0)) (h ! (multi_reader ! i)) (front_x P) (front_y P)))"
proof -
  have x: "fx (front_x P) a b = front_x P" and y: "fy (front_y P) a b = front_y P" for a b
    using assms(4,5) by (simp_all add: fx_def fy_def)
  from run_output[OF assms(1-3), of L P] obtain wr h' where
    r: "create_double_sided L P h master_reader multi_reader = (Inr wr, h')"
    and v: "\<forall>i < length multi_reader.
        out_bytes h' wr ! (2 * i) =
          front_value L P (h ! (master_reader ! 0)) (h ! (multi_reader ! i)) \<and>
        out_bytes h' wr ! (2 * i + 1) =
          back_value L P (h ! (master_reader ! 1)) (start_num P + int i)"
    by blast
  from v have "\<forall>i < length multi_reader.
        out_bytes h' wr ! (2 * i) =
          front_ladder L (h ! (master_reader ! 0)) (h ! (multi_reader ! i)) (front_x P) (front_y P)"
    by (simp only: front_value_def x y) blast
  with r x y show ?thesis by blast
qed

theorem explicit_placement_witness:
  "(fx 30 200 220, fy 0 300 320) = (30, 0) \<and>
   (\<exists>wr h'. create_double_sided demo_lib (demo_settings\<lparr>front_x := 30, front_y := 0\<rparr>)
        demo_heap [0, 1] [2, 3, 4] = (Inr wr, h') \<and>
     out_bytes h' wr ! 2 =
       \<lparr>mediabox = \<lparr>width = 200, height = 300\<rparr>,
        contents = [Other ''front'', Cm 30 0, Other ''b'']\<rparr>)"
proof -
  let ?P = "demo_settings\<lparr>front_x := 30, front_y := 0\<rparr>"
  have s: "0 \<le> front_x ?P" "0 \<le> front_y ?P"
    by simp_all
  from explicit_placement[OF demo_valid s, of 200 220 300 320 demo_lib]
  obtain wr h' where
    xy: "(fx (front_x ?P) 200 220, fy (front_y ?P) 300 320) = (front_x ?P, front_y ?P)"
    and r: "create_double_sided demo_lib ?P demo_heap [0, 1] [2, 3, 4] = (Inr wr, h')"
    and v: "\<forall>i < length [2, 3, 4 :: nat].
        out_bytes h' wr ! (2 * i) =
          front_ladder demo_lib (demo_heap ! ([0, 1] ! 0)) (demo_heap ! ([2, 3, 4] ! i))
            (front_x ?P) (front_y ?P)"
    by blast
  from v[rule_format, of 1] have "out_bytes h' wr ! 2 =
       \<lparr>mediabox = \<lparr>width = 200, height = 300\<rparr>,
        contents = [Other ''front'', Cm 30 0, Other ''b'']\<rparr>"
    by (simp add: demo_heap_def demo_lib_def front_ladder_def)
  with r xy show ?thesis by auto
qed

text \<open>
  C5. With a master reader of fewer than two pages the run gives the error
  \<open>MasterTooShort\<close> and no output document, and the store is the one it started
  from: no page was built.
\<close>

theorem short_master_is_refused:
  assumes "length master_reader < 2"
  shows "create_double_sided L P h master_reader multi_reader = (Inl MasterTooShort, h)"
  using assms by (simp add: create_double_sided_def)

theorem short_master_is_refused_witness:
  "length [0 :: nat] < 2 \<and>
   create_double_sided demo_lib demo_settings demo_heap [0] [2, 3, 4] = (Inl MasterTooShort, demo_heap)"
proof -
  have a: "length [0 :: nat] < 2" by simp
  from short_master_is_refused[OF a] a show ?thesis by blast
qed

text \<open>
  C6. For a library whose merges leave the page untouched when they raise: the run
  returns a document of 2 N pages whatever the merges do; where the translated merge of
  content page i onto the front template raises, front page i is the result of the plain
  merge, and the bare front template when that raises too; where the translated merge by
  (0, 0) of stamp i onto the back template raises, back page i is the result of the plain
  merge, and the bare back template when that raises too. (On the back the script tries
  the plain merge first and the translated merge by (0, 0) second.)
\<close>

theorem merge_failures_are_absorbed:
  assumes "2 \<le> length master_reader"
    and "\<forall>a \<in> set master_reader. a < length h"
    and "\<forall>a \<in> set multi_reader. a < length h"
    and "unchanged_on_raise L"
  shows "\<exists>wr h'. create_double_sided L P h master_reader multi_reader = (Inr wr, h') \<and>
     length (out_bytes h' wr) = 2 * length multi_reader \<and>
     (\<forall>i < length multi_reader.
        (fst (merge_translated_page L (h ! (master_reader ! 0)) (h ! (multi_reader ! i))
               (fx (front_x P) (width (mediabox (h ! (master_reader ! 0))))
                  (width (mediabox (h ! (multi_reader ! i)))))
               (fy (front_y P) (height (mediabox (h ! (master_reader ! 0))))
                  (height (mediabox (h ! (multi_reader ! i)))))) = Raised \<longrightarrow>
         out_bytes h' wr ! (2 * i) =
           (case merge_page L (h ! (master_reader ! 0)) (h ! (multi_reader ! i)) of
              (Returned, q) \<Rightarrow> q
            | (Raised, v) \<Rightarrow> h ! (master_reader ! 0))) \<and>
        (fst (merge_translated_page L (h ! (master_reader ! 1))
               (stamp_value P (h ! (master_reader ! 1)) (start_num P + int i)) 0 0) = Raised \<longrightarrow>
         out_bytes h' wr ! (2 * i + 1) =
           (case merge_page L (h ! (master_reader ! 1))
                   (stamp_value P (h ! (master_reader ! 1)) (start_num P + int i)) of
              (Returned, q) \<Rightarrow> q
            | (Raised, v) \<Rightarrow> h ! (master_reader ! 1))))"
proof -
  from run_output[OF assms(1-3), of L P] obtain wr h' where
    r: "create_double_sided L P h master_reader multi_reader = (Inr wr, h')"
    and l: "length (out_bytes h' wr) = 2 * length multi_reader"
    and v: "\<forall>i < length multi_reader.
        out_bytes h' wr ! (2 * i) =
          front_value L P (h ! (master_reader ! 0)) (h ! (multi_reader ! i)) \<and>
        out_bytes h' wr ! (2 * i + 1) =
          back_value L P (h ! (master_reader ! 1)) (start_num P + int i)"
    by blast
  have "(fst (merge_translated_page L (h ! (master_reader ! 0)) (h ! (multi_reader ! i))
               (fx (front_x P) (width (mediabox (h ! (master_reader ! 0))))
                  (width (mediabox (h ! (multi_reader ! i)))))
               (fy (front_y P) (height (mediabox (h ! (master_reader ! 0))))
                  (height (mediabox (h ! (multi_reader ! i)))))) = Raised \<longrightarrow>
         out_bytes h' wr ! (2 * i) =
           (case merge_page L (h ! (master_reader ! 0)) (h ! (multi_reader ! i)) of
              (Returned, q) \<Rightarrow> q
            | (Raised, v) \<Rightarrow> h ! (master_reader ! 0))) \<and>
        (fst (merge_translated_page L (h ! (master_reader ! 1))
               (stamp_value P (h ! (master_reader ! 1)) (start_num P + int i)) 0 0) = Raised \<longrightarrow>
         out_bytes h' wr ! (2 * i + 1) =
           (case merge_page L (h ! (master_reader ! 1))
                   (stamp_value P (h ! (master_reader ! 1)) (start_num P + int i)) of
              (Returned, q) \<Rightarrow> q
            | (Raised, v) \<Rightarrow> h ! (master_reader ! 1)))"
    if i: "i < length multi_reader" for i
  proof -
    from v i have f: "out_bytes h' wr ! (2 * i) =
          front_value L P (h ! (master_reader ! 0)) (h ! (multi_reader ! i))"
      and b: "out_bytes h' wr ! (2 * i + 1) =
          back_value L P (h ! (master_reader ! 1)) (start_num P + int i)"
      by blast+
    show ?thesis
      unfolding f b front_value_def back_value_def
      using front_ladder_fallback[OF assms(4)] back_ladder_fallback[OF assms(4)]
      by blast
  qed
  with r l show ?thesis by blast
qed

theorem merge_failures_are_absorbed_witness:
  "\<exists>wr h'. create_double_sided demo_lib demo_settings demo_heap [0, 1] [2, 3, 4] = (Inr wr, h') \<and>
     length (out_bytes h' wr) = 6 \<and>
     out_bytes h' wr ! 2 =
       \<lparr>mediabox = \<lparr>width = 200, height = 300\<rparr>, contents = [Other ''front'', Other ''b'']\<rparr> \<and>
     out_bytes h' wr ! 4 = demo_heap ! 0"
proof -
  let ?P = demo_settings
  from merge_failures_are_absorbed[OF demo_valid unchanged_on_raise_demo, of ?P]
  obtain wr h' where
    r: "create_double_sided demo_lib ?P demo_heap [0, 1] [2, 3, 4] = (Inr wr, h')"
    and l: "length (out_bytes h' wr) = 2 * length [2, 3, 4 :: nat]"
    and v: "\<forall>i < length [2, 3, 4 :: nat].
        (fst (merge_translated_page demo_lib (demo_heap ! ([0, 1] ! 0)) (demo_heap ! ([2, 3, 4] ! i))
               (fx (front_x ?P) (width (mediabox (demo_heap ! ([0, 1] ! 0))))
                  (width (mediabox (demo_heap ! ([2, 3, 4] ! i)))))
               (fy (front_y ?P) (height (mediabox (demo_heap ! ([0, 1] ! 0))))
                  (height (mediabox (demo_heap ! ([2, 3, 4] ! i)))))) = Raised \<longrightarrow>
         out_bytes h' wr ! (2 * i) =
           (case merge_page demo_lib (demo_heap ! ([0, 1] ! 0)) (demo_heap ! ([2, 3, 4] ! i)) of
              (Returned, q) \<Rightarrow> q
            | (Raised, v) \<Rightarrow> demo_heap ! ([0, 1] ! 0))) \<and>
        (fst (merge_translated_page demo_lib (demo_heap ! ([0, 1] ! 1))
               (stamp_value ?P (demo_heap ! ([0, 1] ! 1)) (start_num ?P + int i)) 0 0) = Raised \<longrightarrow>
         out_bytes h' wr ! (2 * i + 1) =
           (case merge_page demo_lib (demo_heap ! ([0, 1] ! 1))
                   (stamp_value ?P (demo_heap ! ([0, 1] ! 1)) (start_num ?P + int i)) of
              (Returned, q) \<Rightarrow> q
            | (Raised, v) \<Rightarrow> demo_heap ! ([0, 1] ! 1)))"
    by blast
  from v[rule_format, of 1] have a: "out_bytes h' wr ! 2 =
       \<lparr>mediabox = \<lparr>width = 200, height = 300\<rparr>, contents = [Other ''front'', Other ''b'']\<rparr>"
    by (simp add: demo_heap_def demo_lib_def demo_settings_def fx_def fy_def)
  from v[rule_format, of 2] have b: "out_bytes h' wr ! 4 = demo_heap ! 0"
    by (simp add: demo_heap_def demo_lib_def demo_settings_def fx_def fy_def)
  from r l a b show ?thesis by auto
qed

text \<open>
  C7. A run changes no page that was in the store before it: the first
  \<open>length h\<close> cells of the final store are the initial store, the two templates
  among them. Every page of the output writer is an object allocated during the run,
  none of them a page of the master reader and no two of them the same object. Every
  front page and every back page is composed from the value the template had when the
  run started.
\<close>

theorem templates_are_not_mutated:
  assumes "2 \<le> length master_reader"
    and "\<forall>a \<in> set master_reader. a < length h"
    and "\<forall>a \<in> set multi_reader. a < length h"
  shows "\<exists>wr h'. create_double_sided L P h master_reader multi_reader = (Inr wr, h') \<and>
     take (length h) h' = h \<and>
     h' ! (master_reader ! 0) = h ! (master_reader ! 0) \<and>
     h' ! (master_reader ! 1) = h ! (master_reader ! 1) \<and>
     (\<forall>a \<in> set wr. length h \<le> a \<and> a < length h' \<and> a \<notin> set master_reader) \<and>
     distinct wr \<and>
     (\<forall>i < length multi_reader.
        out_bytes h' wr ! (2 * i) =
          front_value L P (h ! (master_reader ! 0)) (h ! (multi_reader ! i)) \<and>
        out_bytes h' wr ! (2 * i + 1) =
          back_value L P (h ! (master_reader ! 1)) (start_num P + int i))"
proof -
  let ?wr = "slots (length h) (length multi_reader)"
  let ?h' = "h @ cells L P (h ! (master_reader ! 0)) (h ! (master_reader ! 1))
                    (map (\<lambda>a. h ! a) multi_reader) (start_num P)"
  have c: "create_double_sided L P h master_reader multi_reader = (Inr ?wr, ?h')"
    using assms by (rule create_closed)
  have "master_reader ! 0 \<in> set master_reader" "master_reader ! 1 \<in> set master_reader"
    using assms(1) by (auto intro!: nth_mem)
  then have m: "master_reader ! 0 < length h" "master_reader ! 1 < length h"
    using assms(2) by blast+
  have t: "take (length h) ?h' = h" by simp
  have t0: "?h' ! (master_reader ! 0) = h ! (master_reader ! 0)"
    and t1: "?h' ! (master_reader ! 1) = h ! (master_reader ! 1)"
    using m by (simp_all add: nth_append)
  have b: "\<forall>a \<in> set ?wr. length h \<le> a \<and> a < length ?h' \<and> a \<notin> set master_reader"
  proof
    fix a assume "a \<in> set ?wr"
    then have "length h \<le> a \<and> a < length h + 3 * length multi_reader"
      by (rule slots_bounds)
    moreover from this assms(2) have "a \<notin> set master_reader" by fastforce
    ultimately show "length h \<le> a \<and> a < length ?h' \<and> a \<notin> set master_reader"
      by (simp add: length_cells)
  qed
  have d: "distinct ?wr" by (rule distinct_slots)
  have v: "\<forall>i < length multi_reader.
        out_bytes ?h' ?wr ! (2 * i) =
          front_value L P (h ! (master_reader ! 0)) (h ! (multi_reader ! i)) \<and>
        out_bytes ?h' ?wr ! (2 * i + 1) =
          back_value L P (h ! (master_reader ! 1)) (start_num P + int i)"
    using output_nth[OF assms(3)] by blast
  from c t t0 t1 b d v show ?thesis by blast
qed

theorem templates_are_not_mutated_witness:
  "\<exists>wr h'. create_double_sided demo_lib demo_settings demo_heap [0, 1] [2, 3, 4] = (Inr wr, h') \<and>
     take 5 h' = demo_heap \<and> h' ! 0 = demo_heap ! 0 \<and> h' ! 1 = demo_heap ! 1 \<and> distinct wr"
proof -
  from templates_are_not_mutated[OF demo_valid, of demo_lib demo_settings]
  obtain wr h' where
    "create_double_sided demo_lib demo_settings demo_heap [0, 1] [2, 3, 4] = (Inr wr, h')"
    "take (length demo_heap) h' = demo_heap"
    "h' ! ([0, 1] ! 0) = demo_heap ! ([0, 1] ! 0)"
    "h' ! ([0, 1] ! 1) = demo_heap ! ([0, 1] ! 1)"
    "distinct wr"
    by blast
  moreover have "length demo_heap = 5" by (simp add: demo_heap_def)
  ultimately show ?thesis by auto
qed

text \<open>
  C8. Back page i is the result of the plain merge of the stamp onto the back template,
  or, when that raises, what the translated merge by (0, 0) leaves: the offsets of the
  merge are 0 and 0 whatever \<open>x_pos\<close> and \<open>y_pos\<close> are. The stamp has the media
  box of the back template, and \<open>x_pos\<close> and \<open>y_pos\<close> occur only as the
  coordinates at which its text is drawn.
\<close>

theorem back_merge_offset_is_zero:
  assumes "2 \<le> length master_reader"
    and "\<forall>a \<in> set master_reader. a < length h"
    and "\<forall>a \<in> set multi_reader. a < length h"
  shows "\<exists>wr h'. create_double_sided L P h master_reader multi_reader = (Inr wr, h') \<and>
     (\<forall>i < length multi_reader.
        (let stamp = \<lparr>mediabox = mediabox (h ! (master_reader ! 1)),
                      contents = [SetFont ''Helvetica'' 20,
                                  DrawString (x_pos P) (y_pos P) (str (start_num P + int i))]\<rparr>
         in out_bytes h' wr ! (2 * i + 1) =
              (case merge_page L (h ! (master_reader ! 1)) stamp of
                 (Returned, q) \<Rightarrow> q
               | (Raised, b1) \<Rightarrow> snd (merge_translated_page L b1 stamp 0 0))))"
proof -
  from run_output[OF assms(1-3), of L P] obtain wr h' where
    r: "create_double_sided L P h master_reader multi_reader = (Inr wr, h')"
    and v: "\<forall>i < length multi_reader.
        out_bytes h' wr ! (2 * i) =
          front_value L P (h ! (master_reader ! 0)) (h ! (multi_reader ! i)) \<and>
        out_bytes h' wr ! (2 * i + 1) =
          back_value L P (h ! (master_reader ! 1)) (start_num P + int i)"
    by blast
  have "let stamp = \<lparr>mediabox = mediabox (h ! (master_reader ! 1)),
                      contents = [SetFont ''Helvetica'' 20,
                                  DrawString (x_pos P) (y_pos P) (str (start_num P + int i))]\<rparr>
         in out_bytes h' wr ! (2 * i + 1) =
              (case merge_page L (h ! (master_reader ! 1)) stamp of
                 (Returned, q) \<Rightarrow> q
               | (Raised, b1) \<Rightarrow> snd (merge_translated_page L b1 stamp 0 0))"
    if i: "i < length multi_reader" for i
  proof -
    from v i have b: "out_bytes h' wr ! (2 * i + 1) =
          back_value L P (h ! (master_reader ! 1)) (start_num P + int i)"
      by blast
    show ?thesis
      unfolding b back_value_def back_ladder_def stamp_value_eq Let_def ..
  qed
  with r show ?thesis by blast
qed

theorem back_merge_offset_is_zero_witness:
  "\<exists>wr h'. create_double_sided demo_lib (demo_settings\<lparr>x_pos := 12, y_pos := 34\<rparr>)
        demo_heap [0, 1] [2, 3, 4] = (Inr wr, h') \<and>
     out_bytes h' wr ! 1 =
       \<lparr>mediabox = \<lparr>width = 200, height = 300\<rparr>,
        contents = [Other ''back'', SetFont ''Helvetica'' 20, DrawString 12 34 ''5'']\<rparr>"
proof -
  let ?P = "demo_settings\<lparr>x_pos := 12, y_pos := 34\<rparr>"
  have t: "str 5 = ''5''"
    by code_simp
  from back_merge_offset_is_zero[OF demo_valid, of demo_lib ?P]
  obtain wr h' where
    r: "create_double_sided demo_lib ?P demo_heap [0, 1] [2, 3, 4] = (Inr wr, h')"
    and v: "\<forall>i < length [2, 3, 4 :: nat].
        (let stamp = \<lparr>mediabox = mediabox (demo_heap ! ([0, 1] ! 1)),
                      contents = [SetFont ''Helvetica'' 20,
                                  DrawString (x_pos ?P) (y_pos ?P) (str (start_num ?P + int i))]\<rparr>
         in out_bytes h' wr ! (2 * i + 1) =
              (case merge_page demo_lib (demo_heap ! ([0, 1] ! 1)) stamp of
                 (Returned, q) \<Rightarrow> q
               | (Raised, b1) \<Rightarrow> snd (merge_translated_page demo_lib b1 stamp 0 0)))"
    by blast
  from v[rule_format, of 0] have "out_bytes h' wr ! 1 =
       \<lparr>mediabox = \<lparr>width = 200, height = 300\<rparr>,
        contents = [Other ''back'', SetFont ''Helvetica'' 20, DrawString 12 34 ''5'']\<rparr>"
    by (simp add: demo_heap_def demo_lib_def demo_settings_def t)
  with r show ?thesis by blast
qed

text \<open>
  C10. For a library whose merges never change the media box of the page they are called
  on: every front page of the output has the media box of the front template and every
  back page that of the back template, whatever the sizes of the content pages; and the
  stamp sets the font Helvetica at size 20 before anything is drawn.
\<close>

theorem output_pages_have_template_size:
  assumes "2 \<le> length master_reader"
    and "\<forall>a \<in> set master_reader. a < length h"
    and "\<forall>a \<in> set multi_reader. a < length h"
    and "keeps_mediabox L"
  shows "\<exists>wr h'. create_double_sided L P h master_reader multi_reader = (Inr wr, h') \<and>
     (\<forall>i < length multi_reader.
        mediabox (out_bytes h' wr ! (2 * i)) = mediabox (h ! (master_reader ! 0)) \<and>
        mediabox (out_bytes h' wr ! (2 * i + 1)) = mediabox (h ! (master_reader ! 1)) \<and>
        hd (contents (stamp_value P (h ! (master_reader ! 1)) (start_num P + int i))) =
          SetFont ''Helvetica'' 20)"
proof -
  from run_output[OF assms(1-3), of L P] obtain wr h' where
    r: "create_double_sided L P h master_reader multi_reader = (Inr wr, h')"
    and v: "\<forall>i < length multi_reader.
        out_bytes h' wr ! (2 * i) =
          front_value L P (h ! (master_reader ! 0)) (h ! (multi_reader ! i)) \<and>
        out_bytes h' wr ! (2 * i + 1) =
          back_value L P (h ! (master_reader ! 1)) (start_num P + int i)"
    by blast
  have "mediabox (out_bytes h' wr ! (2 * i)) = mediabox (h ! (master_reader ! 0)) \<and>
        mediabox (out_bytes h' wr ! (2 * i + 1)) = mediabox (h ! (master_reader ! 1)) \<and>
        hd (contents (stamp_value P (h ! (master_reader ! 1)) (start_num P + int i))) =
          SetFont ''Helvetica'' 20"
    if i: "i < length multi_reader" for i
  proof -
    from v i have f: "out_bytes h' wr ! (2 * i) =
          front_value L P (h ! (master_reader ! 0)) (h ! (multi_reader ! i))"
      and b: "out_bytes h' wr ! (2 * i + 1) =
          back_value L P (h ! (master_reader ! 1)) (start_num P + int i)"
      by blast+
    have "mediabox (out_bytes h' wr ! (2 * i)) = mediabox (h ! (master_reader ! 0))"
      unfolding f front_value_def using assms(4) by (rule mediabox_front_ladder)
    moreover have "mediabox (out_bytes h' wr ! (2 * i + 1)) = mediabox (h ! (master_reader ! 1))"
      unfolding b back_value_def using assms(4) by (rule mediabox_back_ladder)
    moreover have "hd (contents (stamp_value P (h ! (master_reader ! 1)) (start_num P + int i))) =
          SetFont ''Helvetica'' 20"
      by (simp add: stamp_value_eq)
    ultimately show ?thesis by blast
  qed
  with r show ?thesis by blast
qed

theorem output_pages_have_template_size_witness:
  "\<exists>wr h'. create_double_sided demo_lib demo_settings demo_heap [0, 1] [2, 3, 4] = (Inr wr, h') \<and>
     mediabox (out_bytes h' wr ! 2) = \<lparr>width = 200, height = 300\<rparr> \<and>
     mediabox (demo_heap ! 3) = \<lparr>width = 220, height = 320\<rparr> \<and>
     mediabox (out_bytes h' wr ! 3) = \<lparr>width = 200, height = 300\<rparr>"
proof -
  from output_pages_have_template_size[OF demo_valid keeps_mediabox_demo, of demo_settings]
  obtain wr h' where
    r: "create_double_sided demo_lib demo_settings demo_heap [0, 1] [2, 3, 4] = (Inr wr, h')"
    and v: "\<forall>i < length [2, 3, 4 :: nat].
        mediabox (out_bytes h' wr ! (2 * i)) = mediabox (demo_heap ! ([0, 1] ! 0)) \<and>
        mediabox (out_bytes h' wr ! (2 * i + 1)) = mediabox (demo_heap ! ([0, 1] ! 1)) \<and>
        hd (contents (stamp_value demo_settings (demo_heap ! ([0, 1] ! 1))
              (start_num demo_settings + int i))) = SetFont ''Helvetica'' 20"
    by blast
  from v[rule_format, of 1] have "mediabox (out_bytes h' wr ! 2) = \<lparr>width = 200, height = 300\<rparr>"
    and "mediabox (out_bytes h' wr ! 3) = \<lparr>width = 200, height = 300\<rparr>"
    by (simp_all add: demo_heap_def)
  moreover have "mediabox (demo_heap ! 3) = \<lparr>width = 220, height = 320\<rparr>"
    by (simp add: demo_heap_def)
  ultimately show ?thesis using r by blast
qed

end
